theory Spec2Isabelle
  imports Main "HOL-Library.Sublist"
begin

section \<open>Strings and the regular expressions of the parser\<close>

text \<open>
  The source is \<^verbatim>\<open>src/app/page.tsx\<close>. A JavaScript string is a sequence of UTF-16 code
  units; here it is a \<^typ>\<open>string\<close>, one \<^typ>\<open>char\<close> for one code unit, so the model
  covers the texts whose code units are below 256. The two line separators U+2028 and
  U+2029, which the regular expression \<^verbatim>\<open>.\<close> refuses as well, lie outside of it.
\<close>

definition is_line_terminator :: "char \<Rightarrow> bool" where
  "is_line_terminator c \<longleftrightarrow> c = CHR 0x0A \<or> c = CHR 0x0D"

text \<open>The capture group \<^verbatim>\<open>(.*)\<close>: greedy, up to the first line terminator.\<close>

definition rest_of_line :: "string \<Rightarrow> string" where
  "rest_of_line s = takeWhile (\<lambda>c. \<not> is_line_terminator c) s"

text \<open>
  The first of the alternatives \<open>ps\<close> that the text starts with. An optional group
  \<^verbatim>\<open>X(?:Y)?:\<close> is the two literals \<^verbatim>\<open>XY:\<close> and \<^verbatim>\<open>X:\<close>, the longer one tried first
  as the greedy \<^verbatim>\<open>?\<close> does.
\<close>

fun starts_with :: "string list \<Rightarrow> string \<Rightarrow> string option" where
  "starts_with [] s = None"
| "starts_with (p # ps) s = (if prefix p s then Some p else starts_with ps s)"

text \<open>
  \<^verbatim>\<open>s.match(/P(.*)/)\<close> for a pattern \<^verbatim>\<open>P\<close> that is one of the literals \<open>ps\<close>: the match
  at the leftmost position where one of them starts, and the value of the capture group
  there; \<open>None\<close> is JavaScript's \<^verbatim>\<open>null\<close>.
\<close>

fun match_capture :: "string list \<Rightarrow> string \<Rightarrow> string option" where
  "match_capture ps [] =
     (case starts_with ps [] of None \<Rightarrow> None | Some p \<Rightarrow> Some [])"
| "match_capture ps (c # cs) =
     (case starts_with ps (c # cs) of
        Some p \<Rightarrow> Some (rest_of_line (drop (length p) (c # cs)))
      | None \<Rightarrow> match_capture ps cs)"

text \<open>
  The leftmost occurrence of a literal: the text before it and the text after it.
\<close>

fun find_literal :: "string \<Rightarrow> string \<Rightarrow> (string \<times> string) option" where
  "find_literal p [] = (if p = [] then Some ([], []) else None)"
| "find_literal p (c # cs) =
     (if prefix p (c # cs) then Some ([], drop (length p) (c # cs))
      else map_option (\<lambda>(a, b). (c # a, b)) (find_literal p cs))"

lemma find_literal_Some:
  "find_literal p s = Some (a, b) \<Longrightarrow> s = a @ p @ b"
proof (induction s arbitrary: a)
  case Nil
  then show ?case by (simp split: if_splits)
next
  case (Cons c cs)
  show ?case
  proof (cases "prefix p (c # cs)")
    case True
    with Cons.prems have "a = []" and "b = drop (length p) (c # cs)" by simp_all
    moreover from True have "c # cs = p @ drop (length p) (c # cs)"
      by (metis append_eq_conv_conj prefixE)
    ultimately show ?thesis by simp
  next
    case False
    with Cons.prems obtain a' where "find_literal p cs = Some (a', b)" and "a = c # a'"
      by auto
    with Cons.IH show ?thesis by simp
  qed
qed

text \<open>
  \<^verbatim>\<open>content.matchAll(/BEGIN:VEVENT([\s\S]*?)END:VEVENT/g)\<close>, each match given by its
  capture group: the leftmost \<^verbatim>\<open>BEGIN:VEVENT\<close>, then (the quantifier is lazy) the
  nearest \<^verbatim>\<open>END:VEVENT\<close> after it, and the search goes on behind that match. Where no
  \<^verbatim>\<open>END:VEVENT\<close> follows, no later position can match either.
\<close>

function matchAll_VEVENT :: "string \<Rightarrow> string list" where
  "matchAll_VEVENT s =
     (case find_literal ''BEGIN:VEVENT'' s of
        None \<Rightarrow> []
      | Some (skipped, r) \<Rightarrow>
          (case find_literal ''END:VEVENT'' r of
             None \<Rightarrow> []
           | Some (eventContent, r') \<Rightarrow> eventContent # matchAll_VEVENT r'))"
  by pat_completeness auto
termination
proof (relation "measure length")
  show "wf (measure length)" by simp
next
  fix s x2 skipped r x2a eventContent r'
  assume "find_literal ''BEGIN:VEVENT'' s = Some x2" and "(skipped, r) = x2"
    and "find_literal ''END:VEVENT'' r = Some x2a" and "(eventContent, r') = x2a"
  then have "s = skipped @ ''BEGIN:VEVENT'' @ r" and "r = eventContent @ ''END:VEVENT'' @ r'"
    by (auto dest: find_literal_Some)
  then show "(r', s) \<in> measure length" by simp
qed

declare matchAll_VEVENT.simps [simp del]

section \<open>Events\<close>

record event =
  summary :: string
  start :: string
  end' :: string
  description :: "string option"
  location :: "string option"

text \<open>
  \<^verbatim>\<open>dateStr.slice(b, e)\<close> for indices that are not negative: both are clamped to the
  length, and nothing is returned when the clamped end is not behind the clamped start.
\<close>

definition slice :: "nat \<Rightarrow> nat \<Rightarrow> string \<Rightarrow> string" where
  "slice b e s =
     (let from = min b (length s); to = min e (length s)
      in take (to - from) (drop from s))"

text \<open>
  The two branches on \<^verbatim>\<open>dateStr.length === 8\<close>, which the source writes out once for
  \<^verbatim>\<open>event.start\<close> and once, identically, for \<^verbatim>\<open>event.end\<close>.
\<close>

definition normalizeDate :: "string \<Rightarrow> string" where
  "normalizeDate dateStr =
     (if length dateStr = 8
      then slice 0 4 dateStr @ ''-'' @ slice 4 6 dateStr @ ''-'' @ slice 6 8 dateStr
      else slice 0 4 dateStr @ ''-'' @ slice 4 6 dateStr @ ''-'' @ slice 6 8 dateStr
           @ '' '' @ slice 9 11 dateStr @ '':'' @ slice 11 13 dateStr)"

definition summaryRegex :: "string list" where
  "summaryRegex = [''SUMMARY:'']"

definition startRegex :: "string list" where
  "startRegex = [''DTSTART;VALUE=DATE:'', ''DTSTART:'']"

definition endRegex :: "string list" where
  "endRegex = [''DTEND;VALUE=DATE:'', ''DTEND:'']"

definition descRegex :: "string list" where
  "descRegex = [''DESCRIPTION:'']"

definition locRegex :: "string list" where
  "locRegex = [''LOCATION:'']"

text \<open>The body of the loop of \<^verbatim>\<open>parseICS\<close>: one event from one capture group.\<close>

definition parseEvent :: "string \<Rightarrow> event" where
  "parseEvent eventContent =
     (let event = \<lparr>summary = '''', start = '''', end' = '''',
                   description = None, location = None\<rparr>;
          event = (case match_capture summaryRegex eventContent of
                     None \<Rightarrow> event | Some v \<Rightarrow> event\<lparr>summary := v\<rparr>);
          event = (case match_capture startRegex eventContent of
                     None \<Rightarrow> event | Some dateStr \<Rightarrow> event\<lparr>start := normalizeDate dateStr\<rparr>);
          event = (case match_capture endRegex eventContent of
                     None \<Rightarrow> event | Some dateStr \<Rightarrow> event\<lparr>end' := normalizeDate dateStr\<rparr>);
          event = (case match_capture descRegex eventContent of
                     None \<Rightarrow> event | Some v \<Rightarrow> event\<lparr>description := Some v\<rparr>);
          event = (case match_capture locRegex eventContent of
                     None \<Rightarrow> event | Some v \<Rightarrow> event\<lparr>location := Some v\<rparr>)
      in event)"

text \<open>\<^verbatim>\<open>parseICS\<close>: the loop over the matches pushes one event per match.\<close>

definition parseICS :: "string \<Rightarrow> event list" where
  "parseICS content =
     foldl (\<lambda>events eventContent. events @ [parseEvent eventContent]) []
       (matchAll_VEVENT content)"


text \<open>
  An ICS text written out block by block: before each block a separator, then
  \<^verbatim>\<open>BEGIN:VEVENT\<close>, the body, \<^verbatim>\<open>END:VEVENT\<close>, and after the last block a tail. It is
  well formed when no separator holds a \<^verbatim>\<open>BEGIN:VEVENT\<close> and no body an
  \<^verbatim>\<open>END:VEVENT\<close>, so that the blocks are the ones that were written.
\<close>

fun ics_text :: "(string \<times> string) list \<Rightarrow> string \<Rightarrow> string" where
  "ics_text [] tail = tail"
| "ics_text ((sep, body) # blocks) tail =
     sep @ ''BEGIN:VEVENT'' @ body @ ''END:VEVENT'' @ ics_text blocks tail"

definition well_formed :: "(string \<times> string) list \<Rightarrow> bool" where
  "well_formed blocks \<longleftrightarrow>
     list_all (\<lambda>(sep, body). \<not> sublist ''BEGIN:VEVENT'' sep \<and> \<not> sublist ''END:VEVENT'' body)
       blocks"

section \<open>Dates of the runtime\<close>

text \<open>
  \<^verbatim>\<open>new Date(s)\<close> and \<^verbatim>\<open>toLocaleString()\<close> belong to the JavaScript runtime and depend
  on its time zone and locale, so the functions below take them as the parameters
  \<open>newDate\<close> and \<open>toLocaleString\<close>. A \<^verbatim>\<open>Date\<close> is its time value, the milliseconds
  since the epoch, or \<open>None\<close> for an invalid date, whose time value is \<^verbatim>\<open>NaN\<close>.
\<close>

type_synonym date = "int option"

text \<open>\<^verbatim>\<open>a >= b\<close> and \<^verbatim>\<open>a <= b\<close> on dates compare the time values, and are false on NaN.\<close>

definition date_ge :: "date \<Rightarrow> date \<Rightarrow> bool" where
  "date_ge a b = (case (a, b) of (Some x, Some y) \<Rightarrow> x \<ge> y | _ \<Rightarrow> False)"

definition date_le :: "date \<Rightarrow> date \<Rightarrow> bool" where
  "date_le a b = (case (a, b) of (Some x, Some y) \<Rightarrow> x \<le> y | _ \<Rightarrow> False)"









section \<open>The state of the page\<close>

record home_state =
  events :: "event list"
  url :: string
  loading :: bool
  error :: string
  dragActive :: bool
  showExportModal :: bool
  exportStartDate :: string
  exportEndDate :: string
  currentMonthIndex :: int

section \<open>Import\<close>

text \<open>
  What the request to \<^verbatim>\<open>/api/fetch-ics\<close> comes to: \<open>Thrown\<close> when \<^verbatim>\<open>fetch\<close> or
  \<^verbatim>\<open>response.json()\<close> throws, with the message of the \<^verbatim>\<open>Error\<close> or \<open>None\<close> for a
  thrown value that is no \<^verbatim>\<open>Error\<close>; \<open>NotOk\<close> for a response that is not ok, with
  the \<^verbatim>\<open>error\<close> of its body when that is a non-empty string; \<open>Ok\<close> with the
  \<^verbatim>\<open>content\<close> of the body, \<open>None\<close> when that is no string, on which \<^verbatim>\<open>parseICS\<close>
  throws a \<^verbatim>\<open>TypeError\<close> (its message, the parameter \<open>typeErrorMessage\<close>, is the
  engine's).
\<close>

datatype fetch_outcome = Thrown "string option" | NotOk "string option" | Ok "string option"

text \<open>\<^verbatim>\<open>urlToFetch || url\<close>: the argument unless it is absent or empty.\<close>

definition urlToUse :: "home_state \<Rightarrow> string option \<Rightarrow> string" where
  "urlToUse st urlToFetch =
     (case urlToFetch of None \<Rightarrow> url st | Some u \<Rightarrow> if u = '''' then url st else u)"

text \<open>The part of \<^verbatim>\<open>handleUrlImport\<close> behind the \<^verbatim>\<open>await\<close>: try, catch, finally.\<close>

definition handleUrlImport_settle :: "string \<Rightarrow> fetch_outcome \<Rightarrow> home_state \<Rightarrow> home_state" where
  "handleUrlImport_settle typeErrorMessage outcome st =
     (let st = (case outcome of
                  Ok (Some content) \<Rightarrow> st\<lparr>events := parseICS content\<rparr>
                | Ok None \<Rightarrow> st\<lparr>error := typeErrorMessage\<rparr>
                | NotOk (Some e) \<Rightarrow> st\<lparr>error := e\<rparr>
                | NotOk None \<Rightarrow> st\<lparr>error := ''Failed to fetch ICS file''\<rparr>
                | Thrown (Some message) \<Rightarrow> st\<lparr>error := message\<rparr>
                | Thrown None \<Rightarrow> st\<lparr>error := ''Failed to import calendar''\<rparr>)
      in st\<lparr>loading := False\<rparr>)"

definition handleUrlImport ::
  "string \<Rightarrow> string option \<Rightarrow> fetch_outcome \<Rightarrow> home_state \<Rightarrow> home_state" where
  "handleUrlImport typeErrorMessage urlToFetch outcome st =
     (if urlToUse st urlToFetch = '''' then st\<lparr>error := ''Please enter a calendar URL''\<rparr>
      else handleUrlImport_settle typeErrorMessage outcome (st\<lparr>loading := True, error := ''''\<rparr>))"

text \<open>
  \<^verbatim>\<open>handleFileUpload\<close>: no file chosen, or a file whose \<^verbatim>\<open>text()\<close> is rejected
  (\<open>None\<close>) or gives the content.
\<close>

definition handleFileUpload :: "string option option \<Rightarrow> home_state \<Rightarrow> home_state" where
  "handleFileUpload file st =
     (case file of
        None \<Rightarrow> st
      | Some text \<Rightarrow>
          (let st = st\<lparr>loading := True, error := ''''\<rparr>;
               st = (case text of
                       Some content \<Rightarrow> st\<lparr>events := parseICS content\<rparr>
                     | None \<Rightarrow> st\<lparr>error := ''Error parsing ICS file''\<rparr>)
           in st\<lparr>loading := False\<rparr>))"

section \<open>CSV export\<close>

definition dquote :: char where
  "dquote = CHR 0x22"

text \<open>\<^verbatim>\<open>`"${field.replace(/"/g, '""')}"`\<close>\<close>

definition quoteField :: "string \<Rightarrow> string" where
  "quoteField field =
     [dquote] @ concat (map (\<lambda>c. if c = dquote then [dquote, dquote] else [c]) field) @ [dquote]"

text \<open>\<^verbatim>\<open>Array.prototype.join\<close>\<close>

fun join :: "string \<Rightarrow> string list \<Rightarrow> string" where
  "join sep [] = []"
| "join sep [x] = x"
| "join sep (x # y # ys) = x @ sep @ join sep (y # ys)"

definition filteredEvents :: "(string \<Rightarrow> date) \<Rightarrow> home_state \<Rightarrow> event list" where
  "filteredEvents newDate st =
     filter (\<lambda>event.
       let eventDate = newDate (start event);
           startDate = newDate (exportStartDate st);
           endDate = newDate (exportEndDate st)
       in date_ge eventDate startDate \<and> date_le eventDate endDate) (events st)"

definition headers :: "string list" where
  "headers = [''Summary'', ''Start Date'', ''End Date'', ''Location'', ''Description'']"

definition row :: "(string \<Rightarrow> date) \<Rightarrow> (date \<Rightarrow> string) \<Rightarrow> event \<Rightarrow> string list" where
  "row newDate toLocaleString event =
     map quoteField
       [summary event,
        toLocaleString (newDate (start event)),
        toLocaleString (newDate (end' event)),
        (case location event of None \<Rightarrow> '''' | Some l \<Rightarrow> l),
        (case description event of None \<Rightarrow> '''' | Some d \<Rightarrow> d)]"

definition csvRows :: "(string \<Rightarrow> date) \<Rightarrow> (date \<Rightarrow> string) \<Rightarrow> home_state \<Rightarrow> string list list" where
  "csvRows newDate toLocaleString st =
     foldl (\<lambda>rows event. rows @ [row newDate toLocaleString event]) [headers]
       (filteredEvents newDate st)"

definition csvContent :: "(string \<Rightarrow> date) \<Rightarrow> (date \<Rightarrow> string) \<Rightarrow> home_state \<Rightarrow> string" where
  "csvContent newDate toLocaleString st =
     join [CHR 0x0A] (map (join '','') (csvRows newDate toLocaleString st))"

section \<open>The month on display\<close>

text \<open>\<^verbatim>\<open>Array.prototype.findIndex\<close>: the first index whose element passes, or \<open>-1\<close>.\<close>

fun findIndex :: "('a \<Rightarrow> bool) \<Rightarrow> 'a list \<Rightarrow> int" where
  "findIndex P [] = - 1"
| "findIndex P (x # xs) =
     (if P x then 0 else (let i = findIndex P xs in if i < 0 then - 1 else i + 1))"

text \<open>
  Inside the render function the constant \<^verbatim>\<open>currentMonthIndex\<close> (line 551) is a new
  binding, the result of \<^verbatim>\<open>findIndex\<close>; it hides the state variable of the same name
  (line 22) in all that follows: the month to show and the \<^verbatim>\<open>disabled\<close> of both
  buttons. It is \<open>foundIndex\<close> here. The state \<open>st\<close> is an argument because the render
  function can see it.
\<close>

definition foundIndex :: "string list \<Rightarrow> string \<Rightarrow> int" where
  "foundIndex sortedMonths currentMonthKey =
     findIndex (\<lambda>month. month = currentMonthKey) sortedMonths"

definition monthKey :: "home_state \<Rightarrow> string list \<Rightarrow> string \<Rightarrow> string option" where
  "monthKey st sortedMonths currentMonthKey =
     (if length sortedMonths = 0 then None
      else Some (sortedMonths !
             nat (if foundIndex sortedMonths currentMonthKey \<ge> 0
                  then foundIndex sortedMonths currentMonthKey else 0)))"

definition previousDisabled :: "home_state \<Rightarrow> string list \<Rightarrow> string \<Rightarrow> bool" where
  "previousDisabled st sortedMonths currentMonthKey \<longleftrightarrow>
     foundIndex sortedMonths currentMonthKey = 0"

definition nextDisabled :: "home_state \<Rightarrow> string list \<Rightarrow> string \<Rightarrow> bool" where
  "nextDisabled st sortedMonths currentMonthKey \<longleftrightarrow>
     foundIndex sortedMonths currentMonthKey = int (length sortedMonths) - 1"

text \<open>The two buttons: a click on a disabled button does nothing.\<close>

definition previousMonth :: "string list \<Rightarrow> string \<Rightarrow> home_state \<Rightarrow> home_state" where
  "previousMonth sortedMonths currentMonthKey st =
     (if previousDisabled st sortedMonths currentMonthKey then st
      else st\<lparr>currentMonthIndex := max 0 (currentMonthIndex st - 1)\<rparr>)"

definition nextMonth :: "string list \<Rightarrow> string \<Rightarrow> home_state \<Rightarrow> home_state" where
  "nextMonth sortedMonths currentMonthKey st =
     (if nextDisabled st sortedMonths currentMonthKey then st
      else st\<lparr>currentMonthIndex :=
                min (int (length sortedMonths) - 1) (currentMonthIndex st + 1)\<rparr>)"

text \<open>The initial state, the arguments of the \<^verbatim>\<open>useState\<close> calls.\<close>

definition initial_state :: home_state where
  "initial_state =
     \<lparr>events = [], url = '''', loading = False, error = '''', dragActive = False,
      showExportModal = False, exportStartDate = '''', exportEndDate = '''',
      currentMonthIndex = 0\<rparr>"

section \<open>The export as the specification words it\<close>


fun double_quotes :: "string \<Rightarrow> string" where
  "double_quotes [] = []"
| "double_quotes (c # cs) =
     (if c = dquote then dquote # dquote # double_quotes cs else c # double_quotes cs)"

definition quoted :: "string \<Rightarrow> string" where
  "quoted field = dquote # double_quotes field @ [dquote]"


section \<open>The matches of the event pattern\<close>


lemma parseICS_map: "parseICS content = map parseEvent (matchAll_VEVENT content)"
proof -
  have "foldl (\<lambda>events eventContent. events @ [parseEvent eventContent]) acc ms
          = acc @ map parseEvent ms" for acc ms
    by (induction ms arbitrary: acc) simp_all
  then show ?thesis by (simp add: parseICS_def)
qed

lemma find_literal_None: "find_literal p s = None \<longleftrightarrow> \<not> sublist p s"
proof (induction s)
  case Nil
  then show ?case by simp
next
  case (Cons c cs)
  then show ?case by (cases "prefix p (c # cs)") (simp_all add: sublist_Cons_right)
qed

lemma prefix_overlap:
  assumes "p \<noteq> []" and "last p \<notin> set (butlast p)" and "\<not> sublist p a"
  shows "\<not> prefix p (a @ p @ b) \<or> a = []"
proof (rule ccontr)
  assume "\<not> (\<not> prefix p (a @ p @ b) \<or> a = [])"
  then have pre: "prefix p (a @ p @ b)" and "a \<noteq> []" by simp_all
  from assms(3) have "\<not> prefix p a" by auto
  moreover from pre have "prefix p a \<or> (\<exists>us. p = a @ us \<and> prefix us (p @ b))"
    by (simp only: prefix_append)
  ultimately obtain us where p: "p = a @ us" and us: "prefix us (p @ b)"
    by blast
  from p \<open>a \<noteq> []\<close> have len: "length us < length p" by simp
  from us have "prefix us p \<or> (\<exists>ws. us = p @ ws \<and> prefix ws b)"
    by (simp only: prefix_append)
  with len have "prefix us p" by auto
  then obtain vs where vs: "p = us @ vs" by (auto simp: prefix_def)
  with len have "vs \<noteq> []" by auto
  from p assms(3) have "us \<noteq> []" by auto
  with p have "last p = last us" by simp
  moreover from vs \<open>vs \<noteq> []\<close> have "butlast p = us @ butlast vs" by (simp add: butlast_append)
  ultimately have "last p \<in> set (butlast p)" using \<open>us \<noteq> []\<close> by simp
  with assms(2) show False by simp
qed

lemma find_literal_first:
  assumes "p \<noteq> []" and "last p \<notin> set (butlast p)" and "\<not> sublist p a"
  shows "find_literal p (a @ p @ b) = Some (a, b)"
  using assms(3)
proof (induction a)
  case Nil
  from assms(1) obtain c cs where eq: "p @ b = c # cs" by (cases p) auto
  have "prefix p (p @ b)" by simp
  with eq have "prefix p (c # cs)" by simp
  then have "find_literal p (c # cs) = Some ([], drop (length p) (c # cs))" by simp
  also have "drop (length p) (c # cs) = b" by (simp add: eq [symmetric])
  finally show ?case by (simp add: eq)
next
  case (Cons c a)
  from prefix_overlap [OF assms(1,2) Cons.prems, of b]
  have "\<not> prefix p (c # a @ p @ b)" by simp
  moreover from Cons.prems have "\<not> sublist p a" by (simp add: sublist_Cons_right)
  ultimately show ?case using Cons.IH by simp
qed

lemma matchAll_VEVENT_block:
  assumes "\<not> sublist ''BEGIN:VEVENT'' sep" and "\<not> sublist ''END:VEVENT'' body"
  shows "matchAll_VEVENT (sep @ ''BEGIN:VEVENT'' @ body @ ''END:VEVENT'' @ rest)
           = body # matchAll_VEVENT rest"
proof -
  have 1: "find_literal ''BEGIN:VEVENT'' (sep @ ''BEGIN:VEVENT'' @ body @ ''END:VEVENT'' @ rest)
             = Some (sep, body @ ''END:VEVENT'' @ rest)"
    by (rule find_literal_first [OF _ _ assms(1)]) simp_all
  have 2: "find_literal ''END:VEVENT'' (body @ ''END:VEVENT'' @ rest) = Some (body, rest)"
    by (rule find_literal_first [OF _ _ assms(2)]) simp_all
  show ?thesis
    by (subst matchAll_VEVENT.simps) (simp only: 1 2 option.case prod.case)
qed

lemma matchAll_VEVENT_no_begin:
  assumes "\<not> sublist ''BEGIN:VEVENT'' s"
  shows "matchAll_VEVENT s = []"
proof -
  from assms have 1: "find_literal ''BEGIN:VEVENT'' s = None" by (simp add: find_literal_None)
  show ?thesis
    by (subst matchAll_VEVENT.simps) (simp only: 1 option.case)
qed

lemma matchAll_VEVENT_no_end:
  assumes "\<not> sublist ''BEGIN:VEVENT'' sep" and "\<not> sublist ''END:VEVENT'' r"
  shows "matchAll_VEVENT (sep @ ''BEGIN:VEVENT'' @ r) = []"
proof -
  have 1: "find_literal ''BEGIN:VEVENT'' (sep @ ''BEGIN:VEVENT'' @ r) = Some (sep, r)"
    by (rule find_literal_first [OF _ _ assms(1)]) simp_all
  from assms(2) have 2: "find_literal ''END:VEVENT'' r = None" by (simp add: find_literal_None)
  show ?thesis
    by (subst matchAll_VEVENT.simps) (simp only: 1 2 option.case prod.case)
qed

lemma matchAll_VEVENT_ics_text:
  "well_formed blocks \<Longrightarrow>
     matchAll_VEVENT (ics_text blocks tail) = map snd blocks @ matchAll_VEVENT tail"
proof (induction blocks)
  case Nil
  then show ?case by simp
next
  case (Cons b blocks)
  obtain sep body where b: "b = (sep, body)" by (cases b)
  from Cons.prems b have "\<not> sublist ''BEGIN:VEVENT'' sep" and "\<not> sublist ''END:VEVENT'' body"
    and "well_formed blocks"
    by (simp_all add: well_formed_def)
  with Cons.IH show ?case
    by (simp add: b matchAll_VEVENT_block del: append_Cons)
qed


text \<open>
  Claim C1. For every text, \<^verbatim>\<open>parseICS\<close> returns one event per match of the event
  pattern, in the order of the matches. For a well-formed text written as \<open>N\<close> blocks the
  matches are the \<open>N\<close> bodies, so the result is the \<open>N\<close> events of the bodies, in the
  order of the source.
\<close>

theorem parseICS_one_event_per_block:
  "parseICS content = map parseEvent (matchAll_VEVENT content) \<and>
   (well_formed blocks \<and> \<not> sublist ''BEGIN:VEVENT'' tail \<longrightarrow>
      parseICS (ics_text blocks tail) = map parseEvent (map snd blocks) \<and>
      length (parseICS (ics_text blocks tail)) = length blocks)"
  by (simp add: parseICS_map matchAll_VEVENT_ics_text matchAll_VEVENT_no_begin)

theorem parseICS_one_event_per_block_witness:
  "well_formed [(''BEGIN:VCALENDAR'', ''SUMMARY:A''), (''X'', ''SUMMARY:B'')] \<and>
   \<not> sublist ''BEGIN:VEVENT'' ''END:VCALENDAR'' \<and>
   parseICS ''BEGIN:VCALENDARBEGIN:VEVENTSUMMARY:AEND:VEVENTXBEGIN:VEVENTSUMMARY:BEND:VEVENTEND:VCALENDAR''
     = [parseEvent ''SUMMARY:A'', parseEvent ''SUMMARY:B'']"
proof -
  have wf: "well_formed [(''BEGIN:VCALENDAR'', ''SUMMARY:A''), (''X'', ''SUMMARY:B'')]"
    by code_simp
  have tl: "\<not> sublist ''BEGIN:VEVENT'' ''END:VCALENDAR''"
    by code_simp
  from wf tl parseICS_one_event_per_block
    [of "[]" "[(''BEGIN:VCALENDAR'', ''SUMMARY:A''), (''X'', ''SUMMARY:B'')]" "''END:VCALENDAR''"]
  show ?thesis by simp
qed

section \<open>The fields of an event\<close>

lemma starts_with_None: "starts_with ps s = None \<longleftrightarrow> (\<forall>p\<in>set ps. \<not> prefix p s)"
  by (induction ps) simp_all

lemma match_capture_None: "match_capture ps s = None \<longleftrightarrow> (\<forall>p\<in>set ps. \<not> sublist p s)"
proof (induction s)
  case Nil
  show ?case
    using starts_with_None [of ps "[]"] by (cases "starts_with ps []") simp_all
next
  case (Cons c cs)
  show ?case
  proof (cases "starts_with ps (c # cs)")
    case None
    then have "\<forall>p\<in>set ps. \<not> prefix p (c # cs)" by (simp add: starts_with_None)
    with None Cons.IH show ?thesis by (simp add: sublist_Cons_right)
  next
    case (Some p)
    then have "\<not> (\<forall>p\<in>set ps. \<not> prefix p (c # cs))"
      by (simp add: starts_with_None [symmetric])
    then obtain q where "q \<in> set ps" and "prefix q (c # cs)" by blast
    then have "\<not> (\<forall>p\<in>set ps. \<not> sublist p (c # cs))" by (auto simp: sublist_Cons_right)
    with Some show ?thesis by simp
  qed
qed

lemma parseEvent_summary:
  "summary (parseEvent b) = (case match_capture summaryRegex b of None \<Rightarrow> '''' | Some v \<Rightarrow> v)"
  by (simp add: parseEvent_def Let_def split: option.split)

lemma parseEvent_start:
  "start (parseEvent b) =
     (case match_capture startRegex b of None \<Rightarrow> '''' | Some v \<Rightarrow> normalizeDate v)"
  by (simp add: parseEvent_def Let_def split: option.split)

lemma parseEvent_end:
  "end' (parseEvent b) =
     (case match_capture endRegex b of None \<Rightarrow> '''' | Some v \<Rightarrow> normalizeDate v)"
  by (simp add: parseEvent_def Let_def split: option.split)

lemma parseEvent_description:
  "description (parseEvent b) = match_capture descRegex b"
  by (simp add: parseEvent_def Let_def split: option.split)

lemma parseEvent_location:
  "location (parseEvent b) = match_capture locRegex b"
  by (simp add: parseEvent_def Let_def split: option.split)

lemma missing_summary: "\<not> sublist ''SUMMARY:'' b \<Longrightarrow> match_capture summaryRegex b = None"
  by (simp add: match_capture_None summaryRegex_def)

lemma missing_start:
  "\<not> sublist ''DTSTART:'' b \<Longrightarrow> \<not> sublist ''DTSTART;VALUE=DATE:'' b \<Longrightarrow>
     match_capture startRegex b = None"
  by (simp add: match_capture_None startRegex_def)

lemma missing_end:
  "\<not> sublist ''DTEND:'' b \<Longrightarrow> \<not> sublist ''DTEND;VALUE=DATE:'' b \<Longrightarrow>
     match_capture endRegex b = None"
  by (simp add: match_capture_None endRegex_def)

lemma missing_description: "\<not> sublist ''DESCRIPTION:'' b \<Longrightarrow> match_capture descRegex b = None"
  by (simp add: match_capture_None descRegex_def)

lemma missing_location: "\<not> sublist ''LOCATION:'' b \<Longrightarrow> match_capture locRegex b = None"
  by (simp add: match_capture_None locRegex_def)

text \<open>
  Claim C5. \<^verbatim>\<open>parseICS\<close> has no failing branch: on a string it always returns a list.
  A text without \<^verbatim>\<open>BEGIN:VEVENT\<close> gives the empty list; a \<^verbatim>\<open>BEGIN:VEVENT\<close> that no
  \<^verbatim>\<open>END:VEVENT\<close> follows adds no event to those of the blocks before it; in a block, a
  field whose pattern occurs nowhere keeps its default (the empty string for summary,
  start and end, unset for description and location), and a field whose pattern
  matches is set, whatever the other fields are.
\<close>

theorem parseICS_degrades_to_defaults:
  "(\<not> sublist ''BEGIN:VEVENT'' content \<longrightarrow> parseICS content = []) \<and>
   (well_formed blocks \<and> \<not> sublist ''BEGIN:VEVENT'' sep \<and> \<not> sublist ''END:VEVENT'' r \<longrightarrow>
      parseICS (ics_text blocks (sep @ ''BEGIN:VEVENT'' @ r)) = map parseEvent (map snd blocks)) \<and>
   (\<not> sublist ''SUMMARY:'' b \<longrightarrow> summary (parseEvent b) = '''') \<and>
   (\<not> sublist ''DTSTART:'' b \<and> \<not> sublist ''DTSTART;VALUE=DATE:'' b \<longrightarrow>
      start (parseEvent b) = '''') \<and>
   (\<not> sublist ''DTEND:'' b \<and> \<not> sublist ''DTEND;VALUE=DATE:'' b \<longrightarrow>
      end' (parseEvent b) = '''') \<and>
   (\<not> sublist ''DESCRIPTION:'' b \<longrightarrow> description (parseEvent b) = None) \<and>
   (\<not> sublist ''LOCATION:'' b \<longrightarrow> location (parseEvent b) = None) \<and>
   (match_capture summaryRegex b = Some v1 \<longrightarrow> summary (parseEvent b) = v1) \<and>
   (match_capture startRegex b = Some v2 \<longrightarrow> start (parseEvent b) = normalizeDate v2) \<and>
   (match_capture endRegex b = Some v3 \<longrightarrow> end' (parseEvent b) = normalizeDate v3) \<and>
   (match_capture descRegex b = Some v4 \<longrightarrow> description (parseEvent b) = Some v4) \<and>
   (match_capture locRegex b = Some v5 \<longrightarrow> location (parseEvent b) = Some v5)"
proof -
  have 1: "\<not> sublist ''BEGIN:VEVENT'' content \<longrightarrow> parseICS content = []"
    by (simp add: parseICS_map matchAll_VEVENT_no_begin)
  have 2: "well_formed blocks \<and> \<not> sublist ''BEGIN:VEVENT'' sep \<and> \<not> sublist ''END:VEVENT'' r \<longrightarrow>
      parseICS (ics_text blocks (sep @ ''BEGIN:VEVENT'' @ r)) = map parseEvent (map snd blocks)"
  proof
    assume h: "well_formed blocks \<and> \<not> sublist ''BEGIN:VEVENT'' sep \<and> \<not> sublist ''END:VEVENT'' r"
    then have "matchAll_VEVENT (sep @ ''BEGIN:VEVENT'' @ r) = []"
      by (intro matchAll_VEVENT_no_end) simp_all
    with h show "parseICS (ics_text blocks (sep @ ''BEGIN:VEVENT'' @ r))
                   = map parseEvent (map snd blocks)"
      by (simp only: parseICS_map matchAll_VEVENT_ics_text append_Nil2)
  qed
  have 3: "\<not> sublist ''SUMMARY:'' b \<longrightarrow> summary (parseEvent b) = ''''"
    by (simp add: parseEvent_summary missing_summary)
  have 4: "\<not> sublist ''DTSTART:'' b \<and> \<not> sublist ''DTSTART;VALUE=DATE:'' b \<longrightarrow>
      start (parseEvent b) = ''''"
    by (simp add: parseEvent_start missing_start)
  have 5: "\<not> sublist ''DTEND:'' b \<and> \<not> sublist ''DTEND;VALUE=DATE:'' b \<longrightarrow>
      end' (parseEvent b) = ''''"
    by (simp add: parseEvent_end missing_end)
  have 6: "\<not> sublist ''DESCRIPTION:'' b \<longrightarrow> description (parseEvent b) = None"
    by (simp add: parseEvent_description missing_description)
  have 7: "\<not> sublist ''LOCATION:'' b \<longrightarrow> location (parseEvent b) = None"
    by (simp add: parseEvent_location missing_location)
  have 8: "match_capture summaryRegex b = Some v1 \<longrightarrow> summary (parseEvent b) = v1"
    by (simp add: parseEvent_summary)
  have 9: "match_capture startRegex b = Some v2 \<longrightarrow> start (parseEvent b) = normalizeDate v2"
    by (simp add: parseEvent_start)
  have 10: "match_capture endRegex b = Some v3 \<longrightarrow> end' (parseEvent b) = normalizeDate v3"
    by (simp add: parseEvent_end)
  have 11: "match_capture descRegex b = Some v4 \<longrightarrow> description (parseEvent b) = Some v4"
    by (simp add: parseEvent_description)
  have 12: "match_capture locRegex b = Some v5 \<longrightarrow> location (parseEvent b) = Some v5"
    by (simp add: parseEvent_location)
  from 1 2 3 4 5 6 7 8 9 10 11 12 show ?thesis by blast
qed

theorem parseICS_degrades_to_defaults_witness:
  "parseICS ''BEGIN:VCALENDAR'' = [] \<and>
   parseICS (ics_text [(''A'', ''SUMMARY:x'')] (''B'' @ ''BEGIN:VEVENT'' @ ''SUMMARY:y''))
     = [parseEvent ''SUMMARY:x''] \<and>
   parseEvent ''UID:1'' =
     \<lparr>summary = '''', start = '''', end' = '''', description = None, location = None\<rparr> \<and>
   parseEvent (''SUMMARY:Team Sync'' @ [CHR 0x0A] @ ''DTSTART:20240310T090000Z'' @ [CHR 0x0A]
               @ ''DTEND:20240310T100000Z'' @ [CHR 0x0A] @ ''DESCRIPTION:Weekly'' @ [CHR 0x0A])
     = \<lparr>summary = ''Team Sync'', start = ''2024-03-10 09:00'', end' = ''2024-03-10 10:00'',
        description = Some ''Weekly'', location = None\<rparr> \<and>
   location (parseEvent (''LOCATION:Room 1'' @ [CHR 0x0A])) = Some ''Room 1''"
proof -
  let ?full = "''SUMMARY:Team Sync'' @ [CHR 0x0A] @ ''DTSTART:20240310T090000Z'' @ [CHR 0x0A]
               @ ''DTEND:20240310T100000Z'' @ [CHR 0x0A] @ ''DESCRIPTION:Weekly'' @ [CHR 0x0A]"
  have a: "\<not> sublist ''BEGIN:VEVENT'' ''BEGIN:VCALENDAR''" by code_simp
  have b: "well_formed [(''A'', ''SUMMARY:x'')] \<and> \<not> sublist ''BEGIN:VEVENT'' ''B''
           \<and> \<not> sublist ''END:VEVENT'' ''SUMMARY:y''" by code_simp
  have c: "\<not> sublist ''SUMMARY:'' ''UID:1''"
    "\<not> sublist ''DTSTART:'' ''UID:1'' \<and> \<not> sublist ''DTSTART;VALUE=DATE:'' ''UID:1''"
    "\<not> sublist ''DTEND:'' ''UID:1'' \<and> \<not> sublist ''DTEND;VALUE=DATE:'' ''UID:1''"
    "\<not> sublist ''DESCRIPTION:'' ''UID:1''" "\<not> sublist ''LOCATION:'' ''UID:1''"
    by code_simp+
  have d: "match_capture summaryRegex ?full = Some ''Team Sync''"
    "match_capture startRegex ?full = Some ''20240310T090000Z''"
    "match_capture endRegex ?full = Some ''20240310T100000Z''"
    "match_capture descRegex ?full = Some ''Weekly''"
    "\<not> sublist ''LOCATION:'' ?full"
    by code_simp+
  have e: "match_capture locRegex (''LOCATION:Room 1'' @ [CHR 0x0A]) = Some ''Room 1''"
    by code_simp
  have n: "normalizeDate ''20240310T090000Z'' = ''2024-03-10 09:00''"
    "normalizeDate ''20240310T100000Z'' = ''2024-03-10 10:00''"
    by code_simp+
  note t1 = parseICS_degrades_to_defaults
    [of "''BEGIN:VCALENDAR''" "[(''A'', ''SUMMARY:x'')]" "''B''" "''SUMMARY:y''" "''UID:1''"]
  note t2 = parseICS_degrades_to_defaults
    [of "[]" "[]" "[]" "[]" ?full "''Team Sync''" "''20240310T090000Z''"
        "''20240310T100000Z''" "''Weekly''"]
  note t3 = parseICS_degrades_to_defaults
    [of "[]" "[]" "[]" "[]" "''LOCATION:Room 1'' @ [CHR 0x0A]" _ _ _ _ "''Room 1''"]
  have 1: "parseICS ''BEGIN:VCALENDAR'' = []" using t1 a by blast
  have 2: "parseICS (ics_text [(''A'', ''SUMMARY:x'')] (''B'' @ ''BEGIN:VEVENT'' @ ''SUMMARY:y''))
     = [parseEvent ''SUMMARY:x'']" using t1 b by simp
  have 3: "parseEvent ''UID:1'' =
     \<lparr>summary = '''', start = '''', end' = '''', description = None, location = None\<rparr>"
    using t1 c by (intro event.equality) simp_all
  have 4: "parseEvent ?full
     = \<lparr>summary = ''Team Sync'', start = ''2024-03-10 09:00'', end' = ''2024-03-10 10:00'',
        description = Some ''Weekly'', location = None\<rparr>"
    using t2 d n by (intro event.equality) simp_all
  have 5: "location (parseEvent (''LOCATION:Room 1'' @ [CHR 0x0A])) = Some ''Room 1''"
    using t3 e by blast
  from 1 2 3 4 5 show ?thesis by blast
qed

section \<open>The normalized date\<close>

lemma slice_nth:
  assumes "b \<le> e" and "e \<le> length s"
  shows "slice b e s = map ((!) s) [b..<e]"
proof -
  from assms have "slice b e s = take (e - b) (drop b s)"
    by (simp add: slice_def Let_def)
  also have "\<dots> = map ((!) s) [b..<e]"
  proof (rule nth_equalityI)
    show "length (take (e - b) (drop b s)) = length (map ((!) s) [b..<e])"
      using assms by simp
  next
    fix i
    assume "i < length (take (e - b) (drop b s))"
    with assms have "i < e - b" by simp
    with assms show "take (e - b) (drop b s) ! i = map ((!) s) [b..<e] ! i"
      by simp
  qed
  finally show ?thesis .
qed

lemma upt_0_4: "[0..<4] = [0, 1, 2, 3::nat]"
  by code_simp

lemma normalizeDate_8:
  assumes "length d = 8"
  shows "normalizeDate d = [d!0, d!1, d!2, d!3, CHR ''-'', d!4, d!5, CHR ''-'', d!6, d!7]"
  using assms by (simp add: normalizeDate_def slice_nth upt_0_4)

lemma normalizeDate_13:
  assumes "13 \<le> length d"
  shows "normalizeDate d = [d!0, d!1, d!2, d!3, CHR ''-'', d!4, d!5, CHR ''-'', d!6, d!7,
           CHR '' '', d!9, d!10, CHR '':'', d!11, d!12]"
  using assms by (simp add: normalizeDate_def slice_nth upt_0_4)

lemma normalizeDate_other:
  assumes "length d \<noteq> 8"
  shows "normalizeDate d = slice 0 4 d @ ''-'' @ slice 4 6 d @ ''-'' @ slice 6 8 d
           @ '' '' @ slice 9 11 d @ '':'' @ slice 11 13 d"
  using assms by (simp add: normalizeDate_def)

text \<open>
  Claim C2. The start of an event is the normalized token that the start pattern
  captured, and so is the end. A token of 8 characters normalizes to its characters
  0 to 3, 4 to 5 and 6 to 7, joined by hyphens. A token of any other length normalizes
  to the same three slices, a space, the slice from 9 to 11, a colon and the slice from
  11 to 13; when the token has the 13 characters that this reads, these are its
  characters 9, 10 and 11, 12, and the character at offset 8 is not read. So
  \<^verbatim>\<open>20240315\<close> gives \<^verbatim>\<open>2024-03-15\<close> and \<^verbatim>\<open>20240315T143000Z\<close> gives
  \<^verbatim>\<open>2024-03-15 14:30\<close>.
\<close>

theorem date_token_normalization:
  "(match_capture startRegex b = Some ds \<longrightarrow> start (parseEvent b) = normalizeDate ds) \<and>
   (match_capture endRegex b = Some de \<longrightarrow> end' (parseEvent b) = normalizeDate de) \<and>
   (length d = 8 \<longrightarrow>
      normalizeDate d = [d!0, d!1, d!2, d!3, CHR ''-'', d!4, d!5, CHR ''-'', d!6, d!7]) \<and>
   (length d \<noteq> 8 \<longrightarrow>
      normalizeDate d = slice 0 4 d @ ''-'' @ slice 4 6 d @ ''-'' @ slice 6 8 d
                        @ '' '' @ slice 9 11 d @ '':'' @ slice 11 13 d) \<and>
   (13 \<le> length d \<longrightarrow>
      normalizeDate d = [d!0, d!1, d!2, d!3, CHR ''-'', d!4, d!5, CHR ''-'', d!6, d!7,
                         CHR '' '', d!9, d!10, CHR '':'', d!11, d!12]) \<and>
   normalizeDate ''20240315'' = ''2024-03-15'' \<and>
   normalizeDate ''20240315T143000Z'' = ''2024-03-15 14:30''"
proof -
  have 1: "match_capture startRegex b = Some ds \<longrightarrow> start (parseEvent b) = normalizeDate ds"
    by (simp add: parseEvent_start)
  have 2: "match_capture endRegex b = Some de \<longrightarrow> end' (parseEvent b) = normalizeDate de"
    by (simp add: parseEvent_end)
  have 3: "normalizeDate ''20240315'' = ''2024-03-15''"
    by code_simp
  have 4: "normalizeDate ''20240315T143000Z'' = ''2024-03-15 14:30''"
    by code_simp
  from 1 2 3 4 normalizeDate_8 [of d] normalizeDate_other [of d] normalizeDate_13 [of d]
  show ?thesis by blast
qed

theorem date_token_normalization_witness:
  "start (parseEvent (''DTSTART;VALUE=DATE:20240315'' @ [CHR 0x0A] @ ''DTEND:20240315T143000Z''))
     = ''2024-03-15'' \<and>
   end' (parseEvent (''DTSTART;VALUE=DATE:20240315'' @ [CHR 0x0A] @ ''DTEND:20240315T143000Z''))
     = ''2024-03-15 14:30'' \<and>
   normalizeDate ''2024031'' = ''2024-03-1 :'' \<and>
   normalizeDate ''20240315T1430'' = ''2024-03-15 14:30''"
proof -
  let ?b = "''DTSTART;VALUE=DATE:20240315'' @ [CHR 0x0A] @ ''DTEND:20240315T143000Z''"
  have s: "match_capture startRegex ?b = Some ''20240315''" by code_simp
  have e: "match_capture endRegex ?b = Some ''20240315T143000Z''" by code_simp
  note t = date_token_normalization [of ?b "''20240315''" "''20240315T143000Z''"]
  from t [of "[]"] s have "start (parseEvent ?b) = normalizeDate ''20240315''" by blast
  moreover from t [of "[]"] have "normalizeDate ''20240315'' = ''2024-03-15''" by blast
  ultimately have 1: "start (parseEvent ?b) = ''2024-03-15''" by (rule trans)
  from t [of "[]"] e have "end' (parseEvent ?b) = normalizeDate ''20240315T143000Z''" by blast
  moreover from t [of "[]"] have "normalizeDate ''20240315T143000Z'' = ''2024-03-15 14:30''"
    by blast
  ultimately have 2: "end' (parseEvent ?b) = ''2024-03-15 14:30''" by (rule trans)
  let ?d = "''2024031''"
  have "length ?d \<noteq> 8" by simp
  with date_token_normalization [of "[]" "[]" "[]" ?d]
  have "normalizeDate ?d = slice 0 4 ?d @ ''-'' @ slice 4 6 ?d @ ''-'' @ slice 6 8 ?d
                        @ '' '' @ slice 9 11 ?d @ '':'' @ slice 11 13 ?d" by blast
  also have "\<dots> = ''2024-03-1 :''" by code_simp
  finally have 3: "normalizeDate ?d = ''2024-03-1 :''" .
  let ?e = "''20240315T1430''"
  have "13 \<le> length ?e" by simp
  with date_token_normalization [of "[]" "[]" "[]" ?e]
  have "normalizeDate ?e = [?e!0, ?e!1, ?e!2, ?e!3, CHR ''-'', ?e!4, ?e!5, CHR ''-'', ?e!6, ?e!7,
                         CHR '' '', ?e!9, ?e!10, CHR '':'', ?e!11, ?e!12]" by blast
  also have "\<dots> = ''2024-03-15 14:30''" by code_simp
  finally have 4: "normalizeDate ?e = ''2024-03-15 14:30''" .
  from 1 2 3 4 show ?thesis by blast
qed

section \<open>The first match of a field pattern\<close>


lemma match_capture_skip:
  "\<forall>i<length pre. starts_with ps (drop i (pre @ rest)) = None \<Longrightarrow>
     match_capture ps (pre @ rest) = match_capture ps rest"
proof (induction pre)
  case Nil
  then show ?case by simp
next
  case (Cons c pre)
  from Cons.prems have "starts_with ps (drop 0 ((c # pre) @ rest)) = None" by blast
  then have 0: "starts_with ps (c # pre @ rest) = None" by simp
  have "\<forall>i<length pre. starts_with ps (drop i (pre @ rest)) = None"
  proof (intro allI impI)
    fix i assume "i < length pre"
    then have "Suc i < length (c # pre)" by simp
    with Cons.prems have "starts_with ps (drop (Suc i) ((c # pre) @ rest)) = None" by blast
    then show "starts_with ps (drop i (pre @ rest)) = None" by simp
  qed
  with Cons.IH 0 show ?case by simp
qed

lemma match_capture_here:
  "starts_with ps rest = Some p \<Longrightarrow>
     match_capture ps rest = Some (rest_of_line (drop (length p) rest))"
proof (cases rest)
  case Nil
  assume "starts_with ps rest = Some p"
  with Nil have "starts_with ps [] = Some p" by simp
  moreover from this have "prefix p []" by (induction ps) (auto split: if_splits)
  ultimately show ?thesis using Nil by (simp add: rest_of_line_def)
next
  case (Cons c cs)
  assume "starts_with ps rest = Some p"
  with Cons show ?thesis by simp
qed

lemma rest_of_line_line:
  assumes "\<forall>c\<in>set v. \<not> is_line_terminator c" and "rest = [] \<or> is_line_terminator (hd rest)"
  shows "rest_of_line (v @ rest) = v"
proof -
  from assms(2) have "takeWhile (\<lambda>c. \<not> is_line_terminator c) rest = []"
    by (cases rest) auto
  with assms(1) show ?thesis by (simp add: rest_of_line_def takeWhile_append2)
qed

lemma first_match:
  assumes "\<forall>i<length pre. starts_with ps (drop i (pre @ p @ v @ rest)) = None"
    and "starts_with ps (p @ v @ rest) = Some p"
    and "\<forall>c\<in>set v. \<not> is_line_terminator c" and "rest = [] \<or> is_line_terminator (hd rest)"
  shows "match_capture ps (pre @ p @ v @ rest) = Some v"
  using assms by (simp add: match_capture_skip match_capture_here rest_of_line_line)

lemma starts_with_regex:
  "starts_with summaryRegex (''SUMMARY:'' @ x) = Some ''SUMMARY:''"
  "starts_with startRegex (''DTSTART;VALUE=DATE:'' @ x) = Some ''DTSTART;VALUE=DATE:''"
  "starts_with startRegex (''DTSTART:'' @ x) = Some ''DTSTART:''"
  "starts_with endRegex (''DTEND;VALUE=DATE:'' @ x) = Some ''DTEND;VALUE=DATE:''"
  "starts_with endRegex (''DTEND:'' @ x) = Some ''DTEND:''"
  "starts_with descRegex (''DESCRIPTION:'' @ x) = Some ''DESCRIPTION:''"
  "starts_with locRegex (''LOCATION:'' @ x) = Some ''LOCATION:''"
  by (simp_all add: summaryRegex_def startRegex_def endRegex_def descRegex_def locRegex_def)

lemma starts_with_member:
  assumes "ps \<in> {summaryRegex, startRegex, endRegex, descRegex, locRegex}" and "p \<in> set ps"
  shows "starts_with ps (p @ x) = Some p"
proof -
  from assms consider
      "ps = summaryRegex" "p = ''SUMMARY:''"
    | "ps = startRegex" "p = ''DTSTART;VALUE=DATE:''"
    | "ps = startRegex" "p = ''DTSTART:''"
    | "ps = endRegex" "p = ''DTEND;VALUE=DATE:''"
    | "ps = endRegex" "p = ''DTEND:''"
    | "ps = descRegex" "p = ''DESCRIPTION:''"
    | "ps = locRegex" "p = ''LOCATION:''"
    by (auto simp: summaryRegex_def startRegex_def endRegex_def descRegex_def locRegex_def)
  then show ?thesis
    by cases (simp_all only: starts_with_regex)
qed

text \<open>
  Claim C8. In a block, let a line hold one of the literals of a field's pattern
  (\<^verbatim>\<open>SUMMARY:\<close>; \<^verbatim>\<open>DTSTART:\<close> or \<^verbatim>\<open>DTSTART;VALUE=DATE:\<close>; \<^verbatim>\<open>DTEND:\<close> or
  \<^verbatim>\<open>DTEND;VALUE=DATE:\<close>; \<^verbatim>\<open>DESCRIPTION:\<close>; \<^verbatim>\<open>LOCATION:\<close>), with \<open>v\<close> behind it up to the
  end of the physical line, and let the pattern match at no position before. Then the
  field is taken from \<open>v\<close> and nothing else: the summary, the description and the
  location are \<open>v\<close>, the start and the end are \<open>v\<close> normalized. What follows the line
  terminator, a folded continuation line too, is not part of the value.
\<close>

theorem field_is_rest_of_first_matching_line:
  assumes "eventContent = pre @ p @ v @ rest"
    and "p \<in> set ps"
    and "\<forall>i<length pre. starts_with ps (drop i eventContent) = None"
    and "\<forall>c\<in>set v. \<not> is_line_terminator c"
    and "rest = [] \<or> is_line_terminator (hd rest)"
  shows "(ps = summaryRegex \<longrightarrow> summary (parseEvent eventContent) = v) \<and>
         (ps = startRegex \<longrightarrow> start (parseEvent eventContent) = normalizeDate v) \<and>
         (ps = endRegex \<longrightarrow> end' (parseEvent eventContent) = normalizeDate v) \<and>
         (ps = descRegex \<longrightarrow> description (parseEvent eventContent) = Some v) \<and>
         (ps = locRegex \<longrightarrow> location (parseEvent eventContent) = Some v)"
proof -
  have m: "match_capture ps eventContent = Some v"
    if "ps \<in> {summaryRegex, startRegex, endRegex, descRegex, locRegex}"
  proof -
    from that assms(2) have "starts_with ps (p @ v @ rest) = Some p"
      by (rule starts_with_member)
    with assms(1,3,4,5) show ?thesis
      by (simp only: first_match)
  qed
  have 1: "ps = summaryRegex \<longrightarrow> summary (parseEvent eventContent) = v"
    using m by (auto simp: parseEvent_summary)
  have 2: "ps = startRegex \<longrightarrow> start (parseEvent eventContent) = normalizeDate v"
    using m by (auto simp: parseEvent_start)
  have 3: "ps = endRegex \<longrightarrow> end' (parseEvent eventContent) = normalizeDate v"
    using m by (auto simp: parseEvent_end)
  have 4: "ps = descRegex \<longrightarrow> description (parseEvent eventContent) = Some v"
    using m by (auto simp: parseEvent_description)
  have 5: "ps = locRegex \<longrightarrow> location (parseEvent eventContent) = Some v"
    using m by (auto simp: parseEvent_location)
  from 1 2 3 4 5 show ?thesis by blast
qed

theorem field_is_rest_of_first_matching_line_witness:
  "summary (parseEvent (''UID:1'' @ [CHR 0x0A] @ ''SUMMARY:'' @ ''Team''
                        @ [CHR 0x0D, CHR 0x0A] @ '' Sync'' @ [CHR 0x0D, CHR 0x0A])) = ''Team'' \<and>
   start (parseEvent (''UID:1'' @ [CHR 0x0A] @ ''DTSTART;VALUE=DATE:'' @ ''20240315''
                      @ [CHR 0x0A])) = ''2024-03-15'' \<and>
   end' (parseEvent (''UID:1'' @ [CHR 0x0A] @ ''DTEND:'' @ ''20240315T143000Z'' @ []))
     = ''2024-03-15 14:30'' \<and>
   description (parseEvent (''UID:1'' @ [CHR 0x0A] @ ''DESCRIPTION:'' @ ''Weekly''
                            @ [CHR 0x0D, CHR 0x0A] @ '' notes'')) = Some ''Weekly'' \<and>
   location (parseEvent (''UID:1'' @ [CHR 0x0A] @ ''LOCATION:'' @ ''Room 1'' @ [CHR 0x0A]))
     = Some ''Room 1''"
proof -
  let ?pre = "''UID:1'' @ [CHR 0x0A]"
  let ?fold = "[CHR 0x0D, CHR 0x0A] @ '' Sync'' @ [CHR 0x0D, CHR 0x0A]"
  have 1: "summary (parseEvent (?pre @ ''SUMMARY:'' @ ''Team'' @ ?fold)) = ''Team''"
  proof -
    have "''SUMMARY:'' \<in> set summaryRegex" by (simp add: summaryRegex_def)
    moreover have "\<forall>i<length ?pre. starts_with summaryRegex
                     (drop i (?pre @ ''SUMMARY:'' @ ''Team'' @ ?fold)) = None"
      by (simp add: All_less_Suc summaryRegex_def)
    moreover have "\<forall>c\<in>set ''Team''. \<not> is_line_terminator c"
      by (simp add: is_line_terminator_def)
    moreover have "?fold = [] \<or> is_line_terminator (hd ?fold)"
      by (simp add: is_line_terminator_def)
    ultimately show ?thesis
      using field_is_rest_of_first_matching_line [OF refl, of "''SUMMARY:''" summaryRegex ?pre
          "''Team''" ?fold]
      by blast
  qed
  have 2: "start (parseEvent (?pre @ ''DTSTART;VALUE=DATE:'' @ ''20240315'' @ [CHR 0x0A]))
             = normalizeDate ''20240315''"
  proof -
    have "''DTSTART;VALUE=DATE:'' \<in> set startRegex" by (simp add: startRegex_def)
    moreover have "\<forall>i<length ?pre. starts_with startRegex
                     (drop i (?pre @ ''DTSTART;VALUE=DATE:'' @ ''20240315'' @ [CHR 0x0A])) = None"
      by (simp add: All_less_Suc startRegex_def)
    moreover have "\<forall>c\<in>set ''20240315''. \<not> is_line_terminator c"
      by (simp add: is_line_terminator_def)
    moreover have "[CHR 0x0A] = [] \<or> is_line_terminator (hd [CHR 0x0A])"
      by (simp add: is_line_terminator_def)
    ultimately show ?thesis
      using field_is_rest_of_first_matching_line [OF refl, of "''DTSTART;VALUE=DATE:''"
          startRegex ?pre "''20240315''" "[CHR 0x0A]"]
      by blast
  qed
  have 3: "end' (parseEvent (?pre @ ''DTEND:'' @ ''20240315T143000Z'' @ []))
             = normalizeDate ''20240315T143000Z''"
  proof -
    have "''DTEND:'' \<in> set endRegex" by (simp add: endRegex_def)
    moreover have "\<forall>i<length ?pre. starts_with endRegex
                     (drop i (?pre @ ''DTEND:'' @ ''20240315T143000Z'' @ [])) = None"
      by (simp add: All_less_Suc endRegex_def)
    moreover have "\<forall>c\<in>set ''20240315T143000Z''. \<not> is_line_terminator c"
      by (simp add: is_line_terminator_def)
    moreover have "([]::string) = [] \<or> is_line_terminator (hd [])"
      by simp
    ultimately show ?thesis
      using field_is_rest_of_first_matching_line [OF refl, of "''DTEND:''" endRegex ?pre
          "''20240315T143000Z''" "[]"]
      by blast
  qed
  let ?notes = "[CHR 0x0D, CHR 0x0A] @ '' notes''"
  have 4: "description (parseEvent (?pre @ ''DESCRIPTION:'' @ ''Weekly'' @ ?notes))
             = Some ''Weekly''"
  proof -
    have "''DESCRIPTION:'' \<in> set descRegex" by (simp add: descRegex_def)
    moreover have "\<forall>i<length ?pre. starts_with descRegex
                     (drop i (?pre @ ''DESCRIPTION:'' @ ''Weekly'' @ ?notes)) = None"
      by (simp add: All_less_Suc descRegex_def)
    moreover have "\<forall>c\<in>set ''Weekly''. \<not> is_line_terminator c"
      by (simp add: is_line_terminator_def)
    moreover have "?notes = [] \<or> is_line_terminator (hd ?notes)"
      by (simp add: is_line_terminator_def)
    ultimately show ?thesis
      using field_is_rest_of_first_matching_line [OF refl, of "''DESCRIPTION:''" descRegex ?pre
          "''Weekly''" ?notes]
      by blast
  qed
  have 5: "location (parseEvent (?pre @ ''LOCATION:'' @ ''Room 1'' @ [CHR 0x0A]))
             = Some ''Room 1''"
  proof -
    have "''LOCATION:'' \<in> set locRegex" by (simp add: locRegex_def)
    moreover have "\<forall>i<length ?pre. starts_with locRegex
                     (drop i (?pre @ ''LOCATION:'' @ ''Room 1'' @ [CHR 0x0A])) = None"
      by (simp add: All_less_Suc locRegex_def)
    moreover have "\<forall>c\<in>set ''Room 1''. \<not> is_line_terminator c"
      by (simp add: is_line_terminator_def)
    moreover have "[CHR 0x0A] = [] \<or> is_line_terminator (hd [CHR 0x0A])"
      by (simp add: is_line_terminator_def)
    ultimately show ?thesis
      using field_is_rest_of_first_matching_line [OF refl, of "''LOCATION:''" locRegex ?pre
          "''Room 1''" "[CHR 0x0A]"]
      by blast
  qed
  have n: "normalizeDate ''20240315'' = ''2024-03-15''"
    "normalizeDate ''20240315T143000Z'' = ''2024-03-15 14:30''"
    by code_simp+
  from 1 2 3 4 5 show ?thesis unfolding n by (simp only: append_assoc)
qed

section \<open>A date line with another parameter\<close>

lemma prefix_param:
  "prefix (q @ [c]) (ps @ c # x) \<Longrightarrow> c \<notin> set q \<Longrightarrow> c \<notin> set ps \<Longrightarrow> ps = q"
proof (induction q arbitrary: ps)
  case Nil
  then show ?case by (cases ps) auto
next
  case (Cons a q)
  then show ?case by (cases ps) auto
qed

lemma not_value_date:
  assumes "params \<noteq> '';VALUE=DATE''" and "CHR '':'' \<notin> set params"
  shows "\<not> prefix '';VALUE=DATE:'' (params @ '':'' @ tail)"
proof
  assume "prefix '';VALUE=DATE:'' (params @ '':'' @ tail)"
  then have "prefix ('';VALUE=DATE'' @ [CHR '':'']) (params @ CHR '':'' # tail)" by simp
  from prefix_param [OF this _ assms(2)] have "params = '';VALUE=DATE''"
    by simp
  with assms(1) show False by simp
qed

lemma not_colon:
  assumes "params \<noteq> []" and "hd params = CHR '';''"
  shows "\<not> prefix '':'' (params @ '':'' @ tail)"
  using assms by (cases params) auto

lemma skip_DTSTART:
  assumes "params \<noteq> []" and "hd params = CHR '';''" and "params \<noteq> '';VALUE=DATE''"
    and "CHR '':'' \<notin> set params"
  shows "match_capture startRegex (''DTSTART'' @ params @ '':'' @ tail)
           = match_capture startRegex (params @ '':'' @ tail)"
proof -
  let ?Y = "params @ '':'' @ tail"
  have "\<not> prefix (''DTSTART'' @ '';VALUE=DATE:'') (''DTSTART'' @ ?Y)"
    using not_value_date [OF assms(3,4)] by (simp only: same_prefix_prefix) simp
  moreover have "\<not> prefix (''DTSTART'' @ '':'') (''DTSTART'' @ ?Y)"
    using not_colon [OF assms(1,2)] by (simp only: same_prefix_prefix) simp
  ultimately have "starts_with startRegex (''DTSTART'' @ ?Y) = None"
    by (simp add: startRegex_def)
  then have "match_capture startRegex (''DTSTART'' @ ?Y) = match_capture startRegex (''TSTART'' @ ?Y)"
    by simp
  also have "\<dots> = match_capture startRegex ?Y"
    by (simp add: startRegex_def)
  finally show ?thesis .
qed

lemma skip_DTEND:
  assumes "params \<noteq> []" and "hd params = CHR '';''" and "params \<noteq> '';VALUE=DATE''"
    and "CHR '':'' \<notin> set params"
  shows "match_capture endRegex (''DTEND'' @ params @ '':'' @ tail)
           = match_capture endRegex (params @ '':'' @ tail)"
proof -
  let ?Y = "params @ '':'' @ tail"
  have "\<not> prefix (''DTEND'' @ '';VALUE=DATE:'') (''DTEND'' @ ?Y)"
    using not_value_date [OF assms(3,4)] by (simp only: same_prefix_prefix) simp
  moreover have "\<not> prefix (''DTEND'' @ '':'') (''DTEND'' @ ?Y)"
    using not_colon [OF assms(1,2)] by (simp only: same_prefix_prefix) simp
  ultimately have "starts_with endRegex (''DTEND'' @ ?Y) = None"
    by (simp add: endRegex_def)
  then have "match_capture endRegex (''DTEND'' @ ?Y) = match_capture endRegex (''TEND'' @ ?Y)"
    by simp
  also have "\<dots> = match_capture endRegex ?Y"
  proof -
    from assms(1,2) obtain ps' where "params = CHR '';'' # ps'" by (cases params) auto
    then show ?thesis by (simp add: endRegex_def)
  qed
  finally show ?thesis .
qed

text \<open>
  Claim C9, as amended. Let a block hold a \<^verbatim>\<open>DTSTART\<close> line with a parameter part that
  starts with a semicolon, holds no colon and is not exactly \<^verbatim>\<open>;VALUE=DATE\<close>, and let the
  start pattern match at no other place of the block: at no position before the line
  and nowhere in the text behind the name \<^verbatim>\<open>DTSTART\<close>, which is the parameter part, the
  value and the rest of the block. Then the start pattern does not match the line and
  the start is the empty string. The same holds of \<^verbatim>\<open>DTEND\<close> and the end.
\<close>

theorem other_parameter_leaves_date_empty:
  assumes "params \<noteq> []" and "hd params = CHR '';''" and "params \<noteq> '';VALUE=DATE''"
    and "CHR '':'' \<notin> set params"
  shows "(eventContent = pre @ ''DTSTART'' @ params @ '':'' @ tail \<and>
          (\<forall>i<length pre. starts_with startRegex (drop i eventContent) = None) \<and>
          match_capture startRegex (params @ '':'' @ tail) = None
            \<longrightarrow> start (parseEvent eventContent) = '''') \<and>
         (eventContent = pre @ ''DTEND'' @ params @ '':'' @ tail \<and>
          (\<forall>i<length pre. starts_with endRegex (drop i eventContent) = None) \<and>
          match_capture endRegex (params @ '':'' @ tail) = None
            \<longrightarrow> end' (parseEvent eventContent) = '''')"
proof (intro conjI impI)
  assume h: "eventContent = pre @ ''DTSTART'' @ params @ '':'' @ tail \<and>
          (\<forall>i<length pre. starts_with startRegex (drop i eventContent) = None) \<and>
          match_capture startRegex (params @ '':'' @ tail) = None"
  then have eq: "eventContent = pre @ (''DTSTART'' @ params @ '':'' @ tail)"
    by blast
  with h have "\<forall>i<length pre. starts_with startRegex
                 (drop i (pre @ (''DTSTART'' @ params @ '':'' @ tail))) = None"
    by blast
  then have "match_capture startRegex (pre @ (''DTSTART'' @ params @ '':'' @ tail))
               = match_capture startRegex (''DTSTART'' @ params @ '':'' @ tail)"
    by (rule match_capture_skip)
  with eq have "match_capture startRegex eventContent
               = match_capture startRegex (''DTSTART'' @ params @ '':'' @ tail)"
    by (simp only:)
  also have "\<dots> = match_capture startRegex (params @ '':'' @ tail)"
    using assms by (rule skip_DTSTART)
  also from h have "\<dots> = None" by simp
  finally show "start (parseEvent eventContent) = ''''"
    by (simp add: parseEvent_start)
next
  assume h: "eventContent = pre @ ''DTEND'' @ params @ '':'' @ tail \<and>
          (\<forall>i<length pre. starts_with endRegex (drop i eventContent) = None) \<and>
          match_capture endRegex (params @ '':'' @ tail) = None"
  then have eq: "eventContent = pre @ (''DTEND'' @ params @ '':'' @ tail)"
    by blast
  with h have "\<forall>i<length pre. starts_with endRegex
                 (drop i (pre @ (''DTEND'' @ params @ '':'' @ tail))) = None"
    by blast
  then have "match_capture endRegex (pre @ (''DTEND'' @ params @ '':'' @ tail))
               = match_capture endRegex (''DTEND'' @ params @ '':'' @ tail)"
    by (rule match_capture_skip)
  with eq have "match_capture endRegex eventContent
               = match_capture endRegex (''DTEND'' @ params @ '':'' @ tail)"
    by (simp only:)
  also have "\<dots> = match_capture endRegex (params @ '':'' @ tail)"
    using assms by (rule skip_DTEND)
  also from h have "\<dots> = None" by simp
  finally show "end' (parseEvent eventContent) = ''''"
    by (simp add: parseEvent_end)
qed

theorem other_parameter_leaves_date_empty_witness:
  "start (parseEvent (''UID:1'' @ [CHR 0x0A] @ ''DTSTART'' @ '';TZID=Europe/Zurich'' @ '':''
                      @ ''20240315T090000'' @ [CHR 0x0A])) = '''' \<and>
   end' (parseEvent (''UID:1'' @ [CHR 0x0A] @ ''DTEND'' @ '';TZID=Europe/Zurich'' @ '':''
                      @ ''20240315T100000'' @ [CHR 0x0A])) = ''''"
proof -
  let ?pre = "''UID:1'' @ [CHR 0x0A]"
  let ?params = "'';TZID=Europe/Zurich''"
  let ?t1 = "''20240315T090000'' @ [CHR 0x0A]"
  let ?t2 = "''20240315T100000'' @ [CHR 0x0A]"
  have p: "?params \<noteq> []" "hd ?params = CHR '';''" "?params \<noteq> '';VALUE=DATE''"
    "CHR '':'' \<notin> set ?params" by simp_all
  have s1: "\<forall>i<length ?pre. starts_with startRegex
              (drop i (?pre @ ''DTSTART'' @ ?params @ '':'' @ ?t1)) = None"
    by (simp add: All_less_Suc startRegex_def)
  have s2: "match_capture startRegex (?params @ '':'' @ ?t1) = None" by code_simp
  have e1: "\<forall>i<length ?pre. starts_with endRegex
              (drop i (?pre @ ''DTEND'' @ ?params @ '':'' @ ?t2)) = None"
    by (simp add: All_less_Suc endRegex_def)
  have e2: "match_capture endRegex (?params @ '':'' @ ?t2) = None" by code_simp
  have 1: "start (parseEvent (?pre @ ''DTSTART'' @ ?params @ '':'' @ ?t1)) = ''''"
    using other_parameter_leaves_date_empty [OF p,
        of "?pre @ ''DTSTART'' @ ?params @ '':'' @ ?t1" ?pre ?t1] s1 s2
    by blast
  have 2: "end' (parseEvent (?pre @ ''DTEND'' @ ?params @ '':'' @ ?t2)) = ''''"
    using other_parameter_leaves_date_empty [OF p,
        of "?pre @ ''DTEND'' @ ?params @ '':'' @ ?t2" ?pre ?t2] e1 e2
    by blast
  from 1 2 show ?thesis by (simp only: append_assoc)
qed

text \<open>
  Without the condition on the other places the statement fails: a parameter may itself
  hold the text \<^verbatim>\<open>DTSTART\<close>, and the pattern, which is not anchored at the start of
  a line, then matches inside the line.
\<close>

theorem other_parameter_counterexample:
  "'';X-FOO=DTSTART'' \<noteq> [] \<and> hd '';X-FOO=DTSTART'' = CHR '';'' \<and>
   '';X-FOO=DTSTART'' \<noteq> '';VALUE=DATE'' \<and> CHR '':'' \<notin> set '';X-FOO=DTSTART'' \<and>
   start (parseEvent (''DTSTART'' @ '';X-FOO=DTSTART'' @ '':'' @ ''20240315'')) = ''2024-03-15'' \<and>
   start (parseEvent (''DTSTART'' @ '';X-FOO=DTSTART'' @ '':'' @ ''20240315'')) \<noteq> ''''"
proof -
  have "start (parseEvent (''DTSTART'' @ '';X-FOO=DTSTART'' @ '':'' @ ''20240315''))
          = ''2024-03-15''"
    by code_simp
  then show ?thesis by simp
qed

section \<open>Import and the events on display\<close>

text \<open>
  Claim C7. An import that succeeds sets the events to the sequence parsed from the
  new content, whatever the events were before; an import that fails (the request
  throws, the response is not ok, or parsing throws because the content is no string;
  a file whose text cannot be read) leaves the events as they were. This holds of the
  part of \<^verbatim>\<open>handleUrlImport\<close> behind the \<^verbatim>\<open>await\<close> in whatever state it resumes, and
  of \<^verbatim>\<open>handleUrlImport\<close> and \<^verbatim>\<open>handleFileUpload\<close> as a whole.
\<close>

theorem import_replaces_or_keeps_events:
  "events (handleUrlImport_settle msg (Ok (Some content)) st) = parseICS content \<and>
   events (handleUrlImport_settle msg (Ok None) st) = events st \<and>
   events (handleUrlImport_settle msg (NotOk e) st) = events st \<and>
   events (handleUrlImport_settle msg (Thrown m) st) = events st \<and>
   (urlToUse st urlToFetch \<noteq> '''' \<longrightarrow>
      events (handleUrlImport msg urlToFetch (Ok (Some content)) st) = parseICS content) \<and>
   events (handleUrlImport msg urlToFetch (Ok None) st) = events st \<and>
   events (handleUrlImport msg urlToFetch (NotOk e) st) = events st \<and>
   events (handleUrlImport msg urlToFetch (Thrown m) st) = events st \<and>
   events (handleFileUpload (Some (Some content)) st) = parseICS content \<and>
   events (handleFileUpload (Some None) st) = events st \<and>
   handleFileUpload None st = st"
  by (simp add: handleUrlImport_settle_def handleUrlImport_def handleFileUpload_def Let_def
        split: option.split)

theorem import_replaces_or_keeps_events_witness:
  "urlToUse (initial_state\<lparr>events := [parseEvent ''SUMMARY:old''], url := ''https://example.org/a.ics''\<rparr>)
     None \<noteq> '''' \<and>
   events (handleUrlImport ''TypeError''
            None (Ok (Some ''BEGIN:VEVENTSUMMARY:newEND:VEVENT''))
            (initial_state\<lparr>events := [parseEvent ''SUMMARY:old''],
                            url := ''https://example.org/a.ics''\<rparr>))
     = [parseEvent ''SUMMARY:new'']"
proof -
  let ?st = "initial_state\<lparr>events := [parseEvent ''SUMMARY:old''],
                           url := ''https://example.org/a.ics''\<rparr>"
  have u: "urlToUse ?st None \<noteq> ''''"
    by (simp add: urlToUse_def initial_state_def)
  have p: "parseICS ''BEGIN:VEVENTSUMMARY:newEND:VEVENT'' = [parseEvent ''SUMMARY:new'']"
    by code_simp
  from u import_replaces_or_keeps_events
         [of "''TypeError''" "''BEGIN:VEVENTSUMMARY:newEND:VEVENT''" ?st _ _ None]
  have "events (handleUrlImport ''TypeError'' None
                  (Ok (Some ''BEGIN:VEVENTSUMMARY:newEND:VEVENT'')) ?st)
          = parseICS ''BEGIN:VEVENTSUMMARY:newEND:VEVENT''"
    by blast
  with u p show ?thesis by simp
qed
section \<open>Paging through the months\<close>

lemma monthKey_ignores_state:
  "monthKey (nextMonth sortedMonths k st) sortedMonths k = monthKey st sortedMonths k"
  "monthKey (previousMonth sortedMonths k st) sortedMonths k = monthKey st sortedMonths k"
  by (simp_all add: monthKey_def)

text \<open>
  Claim C3 at three buckets, none of them today's month. The month on display is
  bucket 0 and both buttons are enabled. Two clicks on the next button take the state
  variable \<^verbatim>\<open>currentMonthIndex\<close> from 0 to 2 and a third leaves it at 2, but the month
  on display is read from the result of \<^verbatim>\<open>findIndex\<close>, the binding that hides the state
  variable, and stays bucket 0 after every click.
\<close>

theorem next_month_keeps_display:
  "monthKey initial_state [''2024-01'', ''2024-02'', ''2024-03''] ''2026-11'' = Some ''2024-01'' \<and>
   \<not> nextDisabled initial_state [''2024-01'', ''2024-02'', ''2024-03''] ''2026-11'' \<and>
   \<not> previousDisabled initial_state [''2024-01'', ''2024-02'', ''2024-03''] ''2026-11'' \<and>
   currentMonthIndex
     (nextMonth [''2024-01'', ''2024-02'', ''2024-03''] ''2026-11''
       (nextMonth [''2024-01'', ''2024-02'', ''2024-03''] ''2026-11'' initial_state)) = 2 \<and>
   monthKey
     (nextMonth [''2024-01'', ''2024-02'', ''2024-03''] ''2026-11''
       (nextMonth [''2024-01'', ''2024-02'', ''2024-03''] ''2026-11'' initial_state))
     [''2024-01'', ''2024-02'', ''2024-03''] ''2026-11'' = Some ''2024-01'' \<and>
   currentMonthIndex
     (nextMonth [''2024-01'', ''2024-02'', ''2024-03''] ''2026-11''
       (nextMonth [''2024-01'', ''2024-02'', ''2024-03''] ''2026-11''
         (nextMonth [''2024-01'', ''2024-02'', ''2024-03''] ''2026-11'' initial_state))) = 2"
proof -
  let ?ms = "[''2024-01'', ''2024-02'', ''2024-03'']"
  have f: "foundIndex ?ms ''2026-11'' = - 1"
    by (simp add: foundIndex_def)
  have d: "\<not> nextDisabled st ?ms ''2026-11''" "\<not> previousDisabled st ?ms ''2026-11''" for st
    by (simp_all add: nextDisabled_def previousDisabled_def f)
  have k: "monthKey st ?ms ''2026-11'' = Some ''2024-01''" for st
    by (simp add: monthKey_def f)
  have n: "currentMonthIndex (nextMonth ?ms ''2026-11'' st) = min 2 (currentMonthIndex st + 1)"
    for st
    by (simp add: nextMonth_def d)
  have i: "currentMonthIndex initial_state = 0"
    by (simp add: initial_state_def)
  show ?thesis
    by (simp add: d k n i)
qed

section \<open>The exported text\<close>

lemma csvRows_map:
  "csvRows D L st = headers # map (row D L) (filteredEvents D st)"
proof -
  have "foldl (\<lambda>rows event. rows @ [row D L event]) acc evs = acc @ map (row D L) evs"
    for acc evs
    by (induction evs arbitrary: acc) simp_all
  then show ?thesis by (simp add: csvRows_def)
qed


lemma quoteField_quoted: "quoteField field = quoted field"
proof -
  have "concat (map (\<lambda>c. if c = dquote then [dquote, dquote] else [c]) field)
          = double_quotes field"
    by (induction field) simp_all
  then show ?thesis by (simp add: quoteField_def quoted_def)
qed

lemma join_headers:
  "join '','' headers = ''Summary,Start Date,End Date,Location,Description''"
  by (simp add: headers_def)



lemma join_Cons: "join sep (x # xs) = x @ concat (map (\<lambda>y. sep @ y) xs)"
  by (induction xs arbitrary: x) simp_all










text \<open>
  Claim C10. The rows are the header row and one row for each event kept. In the
  exported text the header row stands as the five names joined by commas, with no
  double quote in it; each row of an event is five fields, every one of them the
  result of \<^verbatim>\<open>quoteField\<close>, which is the value with its double quotes doubled, set
  between two double quotes. The header row never passes through \<^verbatim>\<open>quoteField\<close>.
\<close>

theorem header_plain_rows_quoted:
  "csvRows D L st = headers # map (row D L) (filteredEvents D st) \<and>
   csvContent D L st =
     ''Summary,Start Date,End Date,Location,Description''
     @ concat (map (\<lambda>e. [CHR 0x0A] @ join '','' (row D L e)) (filteredEvents D st)) \<and>
   dquote \<notin> set ''Summary,Start Date,End Date,Location,Description'' \<and>
   row D L e =
     [quoteField (summary e),
      quoteField (L (D (start e))),
      quoteField (L (D (end' e))),
      quoteField (case location e of None \<Rightarrow> '''' | Some l \<Rightarrow> l),
      quoteField (case description e of None \<Rightarrow> '''' | Some d \<Rightarrow> d)] \<and>
   quoteField raw = [dquote] @ double_quotes raw @ [dquote]"
proof -
  have 1: "csvContent D L st =
     ''Summary,Start Date,End Date,Location,Description''
     @ concat (map (\<lambda>e. [CHR 0x0A] @ join '','' (row D L e)) (filteredEvents D st))"
    by (simp only: csvContent_def csvRows_map list.map join_Cons join_headers map_map comp_def)
  have 2: "dquote \<notin> set ''Summary,Start Date,End Date,Location,Description''"
    by (simp add: dquote_def)
  have 3: "quoteField raw = [dquote] @ double_quotes raw @ [dquote]"
    by (simp add: quoteField_quoted quoted_def)
  from 1 2 3 show ?thesis
    by (simp only: csvRows_map row_def list.map) simp
qed

end
